theory Spec2Isabelle
  imports Main
begin

section \<open>Strings, file names and paths\<close>

text \<open>
  The program of \<^verbatim>\<open>bin/index.js\<close> reinstalls the production dependencies and then
  walks \<^verbatim>\<open>node_modules\<close>, deleting documentation, type and lint files and
  minifying JavaScript and JSON files, while it counts what it did.

  A JavaScript string is modelled as a \<^typ>\<open>string\<close>: a character is read as the
  UTF-16 code unit of the same number, so the model covers names and texts whose code
  units lie in U+0000 .. U+00FF, and \<open>length\<close> is JavaScript's \<^verbatim>\<open>.length\<close>.
\<close>

definition EXT_JS :: string where "EXT_JS = ''.js''"
definition EXT_JSON :: string where "EXT_JSON = ''.json''"
definition EXT_MD :: string where "EXT_MD = ''.md''"
definition EXT_TS :: string where "EXT_TS = ''.ts''"

definition ESLINT_FILES :: "string list" where
  "ESLINT_FILES =
    [''.eslintrc'', ''.eslintrc.js'', ''.eslintrc.json'', ''.eslintrc.yml'',
     ''.eslintrc.yaml'', ''.eslintrc.cjs'', ''.eslintrc.config.js'',
     ''.eslintrc.config.cjs'', ''.eslintrc.base.js'', ''.eslintrc.base.cjs'',
     ''.eslintrc.jsonc'', ''.eslintrc.ymlc'', ''.eslintrc.yamlc'', ''.eslintrc.toml'',
     ''.eslintrc.cjson'', ''.eslintrc.json5'', ''.eslintrc5'', ''.eslintignore'',
     ''.eslintcache'', ''.eslintresult'']"

subsection \<open>\<^verbatim>\<open>String.prototype.toLowerCase\<close>\<close>

text \<open>
  On the code units U+0000 .. U+00FF the lower-case mapping moves \<open>A\<close> .. \<open>Z\<close> and the
  Latin-1 capitals U+00C0 .. U+00DE (the multiplication sign U+00D7 apart) up by 32 and
  leaves every other unit alone.
\<close>

definition lower_char :: "char \<Rightarrow> char" where
  "lower_char c =
     (let n = (of_char c :: nat)
      in if (65 \<le> n \<and> n \<le> 90) \<or> (192 \<le> n \<and> n \<le> 222 \<and> n \<noteq> 215)
         then char_of (n + 32) else c)"

definition toLowerCase :: "string \<Rightarrow> string" where
  "toLowerCase s = map lower_char s"

subsection \<open>The regular expression \<^verbatim>\<open>/import\s|export\s/\<close>\<close>

text \<open>
  The class \<^verbatim>\<open>\s\<close> on U+0000 .. U+00FF: tab, line feed, vertical tab, form feed,
  carriage return, space and the no-break space.
\<close>

definition is_space :: "char \<Rightarrow> bool" where
  "is_space c = ((of_char c :: nat) \<in> {9, 10, 11, 12, 13, 32, 160})"

definition matches_here :: "string \<Rightarrow> bool" where
  "matches_here s =
     ((take 6 s = ''import'' \<or> take 6 s = ''export'') \<and>
      (case drop 6 s of [] \<Rightarrow> False | c # _ \<Rightarrow> is_space c))"

text \<open>\<^verbatim>\<open>RegExp.prototype.test\<close> of an unanchored pattern: a match at some position.\<close>

fun regex_test :: "string \<Rightarrow> bool" where
  "regex_test [] = False"
| "regex_test (c # cs) = (matches_here (c # cs) \<or> regex_test cs)"

subsection \<open>\<^verbatim>\<open>path.extname\<close> and \<^verbatim>\<open>path.join\<close>\<close>

text \<open>
  Node's POSIX \<^verbatim>\<open>path.extname\<close> scans the path from its last character to its first,
  with the variables below; \<open>-1\<close> stands for "not seen yet". The record holds the loop's
  variables and \<open>extname_loop path n s\<close> runs the iterations \<open>i = n - 1, ..., 0\<close>.
\<close>

record ext_state =
  startDot :: int
  startPart :: int
  endAt :: int
  matchedSlash :: bool
  preDotState :: int

definition ext_init :: ext_state where
  "ext_init = \<lparr>startDot = -1, startPart = 0, endAt = -1, matchedSlash = True, preDotState = 0\<rparr>"

definition ext_step :: "char \<Rightarrow> nat \<Rightarrow> ext_state \<Rightarrow> ext_state" where
  "ext_step c i s =
     (let s1 = (if endAt s = -1 then s\<lparr>matchedSlash := False, endAt := int i + 1\<rparr> else s)
      in if c = CHR ''.''
         then (if startDot s1 = -1 then s1\<lparr>startDot := int i\<rparr>
               else if preDotState s1 \<noteq> 1 then s1\<lparr>preDotState := 1\<rparr> else s1)
         else if startDot s1 \<noteq> -1 then s1\<lparr>preDotState := -1\<rparr> else s1)"

fun extname_loop :: "string \<Rightarrow> nat \<Rightarrow> ext_state \<Rightarrow> ext_state" where
  "extname_loop path 0 s = s"
| "extname_loop path (Suc i) s =
     (if path ! i = CHR ''/''
      then (if \<not> matchedSlash s then s\<lparr>startPart := int i + 1\<rparr>
            else extname_loop path i s)
      else extname_loop path i (ext_step (path ! i) i s))"

definition ext_result :: "string \<Rightarrow> ext_state \<Rightarrow> string" where
  "ext_result path s =
     (if startDot s = -1 \<or> endAt s = -1 \<or> preDotState s = 0 \<or>
         (preDotState s = 1 \<and> startDot s = endAt s - 1 \<and> startDot s = startPart s + 1)
      then []
      else take (nat (endAt s) - nat (startDot s)) (drop (nat (startDot s)) path))"

definition extname :: "string \<Rightarrow> string" where
  "extname path = ext_result path (extname_loop path (length path) ext_init)"

text \<open>
  \<^verbatim>\<open>path.join(dir, name)\<close> for a normalised \<open>dir\<close> and a directory entry's name: the two
  joined by one separator. The names \<^verbatim>\<open>readdir\<close> returns are not empty, hold no
  separator and are neither \<^verbatim>\<open>.\<close> nor \<^verbatim>\<open>..\<close>, so normalisation changes nothing.
\<close>

definition path_join :: "string \<Rightarrow> string \<Rightarrow> string" where
  "path_join dir name = dir @ ''/'' @ name"

definition dirent_name :: "string \<Rightarrow> bool" where
  "dirent_name name =
     (name \<noteq> [] \<and> CHR ''/'' \<notin> set name \<and> name \<noteq> ''.'' \<and> name \<noteq> ''..'')"

section \<open>The world the program acts on\<close>

text \<open>
  The five counters of the module-level \<^verbatim>\<open>stats\<close> object. They start at 0 and only
  grow, by one or by a size or a difference of lengths that is not negative; JavaScript's
  numbers are exact on such values up to \<open>2 ^ 53\<close>, and the model takes them as natural
  numbers.
\<close>

record statistics =
  jsFilesCompressed :: nat
  jsonFilesCompressed :: nat
  deletedFiles :: nat
  spaceSaved :: nat
  spaceFreed :: nat

definition initial_stats :: statistics where
  "initial_stats = \<lparr>jsFilesCompressed = 0, jsonFilesCompressed = 0, deletedFiles = 0,
                     spaceSaved = 0, spaceFreed = 0\<rparr>"

text \<open>
  What the program prints: one constructor for each \<^verbatim>\<open>console.log\<close> and
  \<^verbatim>\<open>console.error\<close> call of the source, with the values the message shows.
\<close>

datatype event =
    LogDeletedFolder string
  | LogInstalled
  | LogDeleted string nat
  | LogCompressing string
  | LogSummary statistics
  | ErrCommand
  | ErrCaught
  | ErrDeleting string
  | ErrCompressing string
  | ErrCompressingJS string
  | ErrJson string

text \<open>
  The calls of the two walker functions, in order. The source keeps no such list: it is
  there to state which files and directories a run visits.
\<close>

datatype call = ProcessDirectory string | ProcessFile string string

record world =
  disk :: "string \<rightharpoonup> string"
  stats :: statistics
  console :: "event list"
  calls :: "call list"

definition emit :: "event \<Rightarrow> world \<Rightarrow> world" where
  "emit e w = w\<lparr>console := console w @ [e]\<rparr>"

definition enter :: "call \<Rightarrow> world \<Rightarrow> world" where
  "enter c w = w\<lparr>calls := calls w @ [c]\<rparr>"

text \<open>An awaited promise either resolves or rejects; the error value is only printed.\<close>

datatype settled = Resolved | Rejected

text \<open>
  A directory as \<^verbatim>\<open>readdir\<close> with \<^verbatim>\<open>withFileTypes\<close> shows it: every entry has a name
  and is a directory (with its own entries) or something else, which the walker treats as
  a file.
\<close>

datatype dirent = FileEnt string | DirEnt string "dirent list"

text \<open>
  Everything outside the program: which file-system calls fail, the size \<^verbatim>\<open>stat\<close>
  reports, the minifier and the JSON functions of the runtime. \<^verbatim>\<open>Terser.minify\<close>
  rejects or resolves to an object whose \<^verbatim>\<open>code\<close> is a string or undefined;
  \<^verbatim>\<open>JSON.parse\<close> and \<^verbatim>\<open>JSON.stringify\<close> return a value or throw (\<open>None\<close>).

  \<^verbatim>\<open>fs.writeFile\<close> opens the file for writing, which empties it, and then writes the
  text. It succeeds, or it fails before the file is opened and the file is as it was, or
  it fails after the file was opened and the file holds what the failed call left of it:
  nothing, or a part of the text.
\<close>

datatype minify_result = MinifyThrows | MinifyOutput "string option"

datatype write_result = Written | OpenFails | WriteFails string

record 'j env =
  rm_fails :: "string \<Rightarrow> bool"
  exec_fails :: "string \<Rightarrow> bool"
  exec_effect :: "(string \<rightharpoonup> string) \<Rightarrow> (string \<rightharpoonup> string)"
  readdir_fails :: "string \<Rightarrow> bool"
  stat_size :: "string \<Rightarrow> nat option"
  unlink_fails :: "string \<Rightarrow> bool"
  readFile_fails :: "string \<Rightarrow> bool"
  writeFile_result :: "string \<Rightarrow> write_result"
  minify :: "string \<Rightarrow> minify_result"
  JSON_parse :: "string \<Rightarrow> 'j option"
  JSON_stringify :: "'j \<Rightarrow> string option"

definition readFile :: "'j env \<Rightarrow> string \<Rightarrow> world \<Rightarrow> string option" where
  "readFile env p w = (if readFile_fails env p then None else disk w p)"

definition writeFile :: "'j env \<Rightarrow> string \<Rightarrow> string \<Rightarrow> world \<Rightarrow> settled \<times> world" where
  "writeFile env p txt w =
     (case writeFile_result env p of
        Written \<Rightarrow> (Resolved, w\<lparr>disk := (disk w)(p \<mapsto> txt)\<rparr>)
      | OpenFails \<Rightarrow> (Rejected, w)
      | WriteFails left \<Rightarrow> (Rejected, w\<lparr>disk := (disk w)(p \<mapsto> left)\<rparr>))"

definition unlink :: "'j env \<Rightarrow> string \<Rightarrow> world \<Rightarrow> world option" where
  "unlink env p w =
     (if unlink_fails env p \<or> disk w p = None then None
      else Some (w\<lparr>disk := (disk w)(p := None)\<rparr>))"

section \<open>The compressors\<close>

definition compressJavaScriptFile :: "'j env \<Rightarrow> string \<Rightarrow> world \<Rightarrow> settled \<times> world" where
  "compressJavaScriptFile env filePath w =
     (case readFile env filePath w of
        None \<Rightarrow> (Rejected, w)
      | Some originalCode \<Rightarrow>
          if \<not> regex_test originalCode then
            (case minify env originalCode of
               MinifyThrows \<Rightarrow> (Resolved, emit (ErrCompressingJS filePath) w)
             | MinifyOutput None \<Rightarrow> (Resolved, w)
             | MinifyOutput (Some code) \<Rightarrow>
                 if code \<noteq> [] \<and> length code < length originalCode then
                   (case writeFile env filePath code w of
                      (Rejected, w') \<Rightarrow> (Resolved, emit (ErrCompressingJS filePath) w')
                    | (Resolved, w') \<Rightarrow>
                        (Resolved,
                         w'\<lparr>stats := (stats w')
                              \<lparr>jsFilesCompressed := jsFilesCompressed (stats w') + 1,
                               spaceSaved := spaceSaved (stats w')
                                 + (length originalCode - length code)\<rparr>\<rparr>))
                 else (Resolved, w))
          else (Resolved, w))"

definition compressJsonFile :: "'j env \<Rightarrow> string \<Rightarrow> world \<Rightarrow> settled \<times> world" where
  "compressJsonFile env filePath w =
     (case readFile env filePath w of
        None \<Rightarrow> (Rejected, w)
      | Some originalContent \<Rightarrow>
          (case JSON_parse env originalContent of
             None \<Rightarrow> (Resolved, emit (ErrJson filePath) w)
           | Some json \<Rightarrow>
               (case JSON_stringify env json of
                  None \<Rightarrow> (Resolved, emit (ErrJson filePath) w)
                | Some compressedContent \<Rightarrow>
                    if length compressedContent < length originalContent then
                      (case writeFile env filePath compressedContent w of
                         (Rejected, w') \<Rightarrow> (Resolved, emit (ErrJson filePath) w')
                       | (Resolved, w') \<Rightarrow>
                           (Resolved,
                            w'\<lparr>stats := (stats w')
                                 \<lparr>jsonFilesCompressed := jsonFilesCompressed (stats w') + 1,
                                  spaceSaved := spaceSaved (stats w')
                                    + (length originalContent - length compressedContent)\<rparr>\<rparr>))
                    else (Resolved, w))))"

text \<open>The \<^verbatim>\<open>try\<close> of \<^verbatim>\<open>compressFile\<close>: a rejection is printed and the call resolves.\<close>

definition catch_compress :: "string \<Rightarrow> settled \<times> world \<Rightarrow> settled \<times> world" where
  "catch_compress filePath r =
     (case r of
        (Rejected, w) \<Rightarrow> (Resolved, emit (ErrCompressing filePath) w)
      | (Resolved, w) \<Rightarrow> (Resolved, w))"

definition compressFile :: "'j env \<Rightarrow> string \<Rightarrow> world \<Rightarrow> settled \<times> world" where
  "compressFile env filePath w =
     (let ext = extname filePath;
          w1 = emit (LogCompressing filePath) w
      in if ext = EXT_JS then catch_compress filePath (compressJavaScriptFile env filePath w1)
         else if ext = EXT_JSON then catch_compress filePath (compressJsonFile env filePath w1)
         else (Resolved, w1))"

section \<open>The tree walker\<close>

text \<open>
  The first branch of \<^verbatim>\<open>processFile\<close> (its lines 67 to 71): the size is measured, the
  removal is attempted and its failure printed, then the file is reported and counted.
\<close>

definition deleteFile :: "'j env \<Rightarrow> string \<Rightarrow> world \<Rightarrow> settled \<times> world" where
  "deleteFile env fullPath w =
     (case stat_size env fullPath of
        None \<Rightarrow> (Rejected, w)
      | Some size' \<Rightarrow>
          let w1 = (case unlink env fullPath w of
                      None \<Rightarrow> emit (ErrDeleting fullPath) w
                    | Some w' \<Rightarrow> w');
              w2 = emit (LogDeleted fullPath size') w1
          in (Resolved,
              w2\<lparr>stats := (stats w2)
                   \<lparr>deletedFiles := deletedFiles (stats w2) + 1,
                    spaceFreed := spaceFreed (stats w2) + size'\<rparr>\<rparr>))"

definition processFile :: "'j env \<Rightarrow> string \<Rightarrow> string \<Rightarrow> world \<Rightarrow> settled \<times> world" where
  "processFile env name fullPath w0 =
     (let w = enter (ProcessFile name fullPath) w0;
          ext = extname name
      in if ext = EXT_MD \<or> ext = EXT_TS \<or> toLowerCase name \<in> set ESLINT_FILES
         then deleteFile env fullPath w
         else compressFile env fullPath w)"

text \<open>
  \<^verbatim>\<open>processDirectory\<close> lists the directory and handles the entries in order; the first
  rejection ends the loop and rejects the call. \<open>processEntries\<close> is its \<^verbatim>\<open>for\<close> loop.
\<close>

fun processDirectory :: "'j env \<Rightarrow> string \<Rightarrow> dirent list \<Rightarrow> world \<Rightarrow> settled \<times> world"
  and processEntries :: "'j env \<Rightarrow> string \<Rightarrow> dirent list \<Rightarrow> world \<Rightarrow> settled \<times> world"
  and processEntry :: "'j env \<Rightarrow> string \<Rightarrow> dirent \<Rightarrow> world \<Rightarrow> settled \<times> world"
where
  "processDirectory env dir files w0 =
     (let w = enter (ProcessDirectory dir) w0
      in if readdir_fails env dir then (Rejected, w) else processEntries env dir files w)"
| "processEntries env dir [] w = (Resolved, w)"
| "processEntries env dir (file # files) w =
     (case processEntry env dir file w of
        (Rejected, w') \<Rightarrow> (Rejected, w')
      | (Resolved, w') \<Rightarrow> processEntries env dir files w')"
| "processEntry env dir (DirEnt name files) w =
     processDirectory env (path_join dir name) files w"
| "processEntry env dir (FileEnt name) w =
     processFile env name (path_join dir name) w"

section \<open>The run\<close>

text \<open>
  \<^verbatim>\<open>fs.rm(dir, {recursive: true})\<close> removes every file below \<open>dir\<close>. The command's effect
  on the files is \<open>exec_effect\<close>; \<open>tree\<close> is the content of \<open>dir\<close> that \<^verbatim>\<open>readdir\<close>
  shows afterwards.
\<close>

definition rm_recursive :: "string \<Rightarrow> (string \<rightharpoonup> string) \<Rightarrow> (string \<rightharpoonup> string)" where
  "rm_recursive dir d =
     (\<lambda>p. if take (length dir + 1) p = dir @ ''/'' then None else d p)"

definition deleteAndCompress ::
  "'j env \<Rightarrow> string \<Rightarrow> dirent list \<Rightarrow> world \<Rightarrow> settled \<times> world" where
  "deleteAndCompress env dir tree w =
     (if rm_fails env dir then (Resolved, emit ErrCaught w)
      else
        let w1 = emit (LogDeletedFolder dir) (w\<lparr>disk := rm_recursive dir (disk w)\<rparr>)
        in if exec_fails env ''npm install --omit=dev''
           then (Resolved, emit ErrCaught (emit ErrCommand w1))
           else
             let w2 = emit LogInstalled (w1\<lparr>disk := exec_effect env (disk w1)\<rparr>)
             in (case processDirectory env dir tree w2 of
                   (Rejected, w3) \<Rightarrow> (Resolved, emit ErrCaught w3)
                 | (Resolved, w3) \<Rightarrow> (Resolved, w3)))"

text \<open>
  The module's last statement: the summary is printed when \<^verbatim>\<open>deleteAndCompress\<close>
  resolves; a rejection would leave it out.
\<close>

definition main :: "'j env \<Rightarrow> dirent list \<Rightarrow> (string \<rightharpoonup> string) \<Rightarrow> world" where
  "main env tree d =
     (case deleteAndCompress env ''node_modules'' tree
             \<lparr>disk = d, stats = initial_stats, console = [], calls = []\<rparr> of
        (Resolved, w) \<Rightarrow> emit (LogSummary (stats w)) w
      | (Rejected, w) \<Rightarrow> w)"

section \<open>Notions of the specification\<close>

text \<open>
  The four decisions and the classifier as the specification words it: by the final
  extension of the name (what \<^verbatim>\<open>path.extname\<close> returns) and by the lower-cased name.
\<close>

datatype decision = Delete | CompressJS | CompressJSON | Skip

definition classify :: "string \<Rightarrow> decision" where
  "classify name =
     (if extname name = ''.md'' \<or> extname name = ''.ts''
         \<or> toLowerCase name \<in> set ESLINT_FILES then Delete
      else if extname name = ''.js'' then CompressJS
      else if extname name = ''.json'' then CompressJSON
      else Skip)"

text \<open>
  A module marker: the word \<^verbatim>\<open>import\<close> or \<^verbatim>\<open>export\<close> followed by a white-space
  character, anywhere in the text.
\<close>

definition has_module_marker :: "string \<Rightarrow> bool" where
  "has_module_marker txt =
     (\<exists>pre kw c post. txt = pre @ kw @ c # post
        \<and> (kw = ''import'' \<or> kw = ''export'') \<and> is_space c)"

text \<open>Counting the visited files of a run, all of them and those of one decision.\<close>

fun is_file_call :: "call \<Rightarrow> bool" where
  "is_file_call (ProcessFile name p) = True"
| "is_file_call (ProcessDirectory dir) = False"

fun call_class :: "decision \<Rightarrow> call \<Rightarrow> bool" where
  "call_class d (ProcessFile name p) = (classify name = d)"
| "call_class d (ProcessDirectory dir) = False"

definition files_visited :: "call list \<Rightarrow> nat" where
  "files_visited cs = length (filter is_file_call cs)"

definition visited_of :: "decision \<Rightarrow> call list \<Rightarrow> nat" where
  "visited_of d cs = length (filter (call_class d) cs)"

text \<open>The sizes \<^verbatim>\<open>stat\<close> reports for the visited files whose decision is \<open>Delete\<close>.\<close>

fun delete_size :: "'j env \<Rightarrow> call \<Rightarrow> nat" where
  "delete_size env (ProcessFile name p) =
     (if classify name = Delete then (case stat_size env p of None \<Rightarrow> 0 | Some n \<Rightarrow> n) else 0)"
| "delete_size env (ProcessDirectory dir) = 0"

definition delete_sizes :: "'j env \<Rightarrow> call list \<Rightarrow> nat" where
  "delete_sizes env cs = sum_list (map (delete_size env) cs)"

text \<open>A tree whose entries all carry names that \<^verbatim>\<open>readdir\<close> can return.\<close>

fun tree_names_ok :: "dirent \<Rightarrow> bool" where
  "tree_names_ok (FileEnt name) = dirent_name name"
| "tree_names_ok (DirEnt name files) = (dirent_name name \<and> list_all tree_names_ok files)"

text \<open>
  The transformed output of a compression attempt on a text that was read, if there is
  one: the minifier's code for a JavaScript text without a module marker, the
  re-serialised value for a JSON text that parses.
\<close>

definition js_output :: "'j env \<Rightarrow> string \<Rightarrow> string option" where
  "js_output env originalCode =
     (if regex_test originalCode then None
      else case minify env originalCode of
             MinifyThrows \<Rightarrow> None
           | MinifyOutput code \<Rightarrow> code)"

definition json_output :: "'j env \<Rightarrow> string \<Rightarrow> string option" where
  "json_output env originalContent =
     (case JSON_parse env originalContent of
        None \<Rightarrow> None
      | Some json \<Rightarrow> JSON_stringify env json)"

section \<open>Auxiliary notions\<close>

text \<open>
  For the proof that \<^verbatim>\<open>path.extname\<close> of a joined path only reads the entry's name:
  the loop's state with its positions moved right by \<open>k\<close>, and the states whose
  positions are \<open>-1\<close> or proper indices.
\<close>

definition shift :: "nat \<Rightarrow> ext_state \<Rightarrow> ext_state" where
  "shift k s =
     s\<lparr>startDot := (if startDot s = -1 then -1 else startDot s + int k),
       endAt := (if endAt s = -1 then -1 else endAt s + int k)\<rparr>"

definition ext_ok :: "ext_state \<Rightarrow> bool" where
  "ext_ok s = (-1 \<le> startDot s \<and> -1 \<le> endAt s)"

text \<open>
  The bookkeeping relation of the walk: from \<open>w\<close> to \<open>w'\<close> the calls \<open>cs\<close> were added, and
  the counters grew by no more than the visited files of the matching decision allow.
\<close>

definition accounted :: "'j env \<Rightarrow> world \<Rightarrow> world \<Rightarrow> bool" where
  "accounted env w w' =
     (\<exists>cs. calls w' = calls w @ cs
        \<and> deletedFiles (stats w') \<le> deletedFiles (stats w) + visited_of Delete cs
        \<and> jsFilesCompressed (stats w') \<le> jsFilesCompressed (stats w) + visited_of CompressJS cs
        \<and> jsonFilesCompressed (stats w')
             \<le> jsonFilesCompressed (stats w) + visited_of CompressJSON cs
        \<and> spaceFreed (stats w') \<le> spaceFreed (stats w) + delete_sizes env cs
        \<and> (visited_of CompressJS cs + visited_of CompressJSON cs = 0
             \<longrightarrow> spaceSaved (stats w') = spaceSaved (stats w)))"

text \<open>The calls of a walk over a directory that no rejection cuts short.\<close>

fun dir_calls :: "string \<Rightarrow> dirent list \<Rightarrow> call list"
  and entries_calls :: "string \<Rightarrow> dirent list \<Rightarrow> call list"
  and entry_calls :: "string \<Rightarrow> dirent \<Rightarrow> call list"
where
  "dir_calls dir files = ProcessDirectory dir # entries_calls dir files"
| "entries_calls dir [] = []"
| "entries_calls dir (f # fs) = entry_calls dir f @ entries_calls dir fs"
| "entry_calls dir (DirEnt name files) = dir_calls (path_join dir name) files"
| "entry_calls dir (FileEnt name) = [ProcessFile name (path_join dir name)]"

section \<open>Example inputs\<close>

text \<open>
  The files and the tree a reinstall leaves, and an environment in which the reinstall
  leaves them and nothing fails, every file has 2048 bytes, the minifier answers
  \<^verbatim>\<open>f()\<close> and the JSON functions turn every text into \<^verbatim>\<open>{}\<close>; and variations of it.
\<close>

definition world_of :: "(string \<rightharpoonup> string) \<Rightarrow> world" where
  "world_of d = \<lparr>disk = d, stats = initial_stats, console = [], calls = []\<rparr>"

definition disk_example :: "string \<rightharpoonup> string" where
  "disk_example =
     [''node_modules/README.md'' \<mapsto> ''# readme'',
      ''node_modules/README.MD'' \<mapsto> ''# readme'',
      ''node_modules/index.js'' \<mapsto> ''export const x=1;'',
      ''node_modules/lib/util.js'' \<mapsto> ''function f(a,b){return a+b;}'',
      ''node_modules/data.json'' \<mapsto> ''{   }'',
      ''node_modules/tie.json'' \<mapsto> ''{}'',
      ''node_modules/big.json'' \<mapsto> ''[1e400]'',
      ''node_modules/nulls.json'' \<mapsto> ''[ null ]'']"

definition tree_example :: "dirent list" where
  "tree_example =
     [FileEnt ''README.md'', DirEnt ''lib'' [FileEnt ''util.js''], FileEnt ''data.json'']"

definition env_ok :: "unit env" where
  "env_ok =
     \<lparr>rm_fails = (\<lambda>_. False), exec_fails = (\<lambda>_. False),
      exec_effect = (\<lambda>_. disk_example), readdir_fails = (\<lambda>_. False),
      stat_size = (\<lambda>_. Some 2048),
      unlink_fails = (\<lambda>_. False), readFile_fails = (\<lambda>_. False),
      writeFile_result = (\<lambda>_. Written), minify = (\<lambda>_. MinifyOutput (Some ''f()'')),
      JSON_parse = (\<lambda>_. Some ()), JSON_stringify = (\<lambda>_. Some ''{}'')\<rparr>"

definition env_unlink_fails :: "unit env" where
  "env_unlink_fails = env_ok\<lparr>unlink_fails := (\<lambda>_. True)\<rparr>"

definition env_rm_fails :: "unit env" where
  "env_rm_fails = env_ok\<lparr>rm_fails := (\<lambda>_. True)\<rparr>"

definition env_exec_fails :: "unit env" where
  "env_exec_fails = env_ok\<lparr>exec_fails := (\<lambda>_. True)\<rparr>"

definition env_minify_empty :: "unit env" where
  "env_minify_empty = env_ok\<lparr>minify := (\<lambda>_. MinifyOutput (Some []))\<rparr>"

text \<open>A directory whose files are all skipped.\<close>

definition tree_skipped :: "dirent list" where
  "tree_skipped = [FileEnt ''README.MD'', FileEnt ''LICENSE'']"

text \<open>A write that fails after the file was opened and leaves it empty.\<close>

definition env_write_truncates :: "unit env" where
  "env_write_truncates = env_ok\<lparr>writeFile_result := (\<lambda>_. WriteFails [])\<rparr>"

text \<open>
  JSON values, and what the runtime's \<^verbatim>\<open>JSON.parse\<close> and \<^verbatim>\<open>JSON.stringify\<close> do on three
  texts and their values, by the rules of the language: a number literal beyond the range
  of a double reads as \<^verbatim>\<open>Infinity\<close>, and a number that is not finite is written as
  \<^verbatim>\<open>null\<close>. A finite number is \<open>Finite m e\<close>, the double \<open>m * 2 ^ e\<close>. On other texts
  and values the two samples answer \<open>None\<close> and stand for nothing.
\<close>

datatype js_number = Finite int int | Infinity | MinusInfinity

datatype json =
    JNull
  | JBool bool
  | JNumber js_number
  | JString string
  | JArray "json list"
  | JObject "(string \<times> json) list"




section \<open>Basic facts\<close>

lemma emit_simps:
  "disk (emit e w) = disk w" "stats (emit e w) = stats w"
  "calls (emit e w) = calls w" "console (emit e w) = console w @ [e]"
  by (simp_all add: emit_def)

lemma enter_simps:
  "disk (enter c w) = disk w" "stats (enter c w) = stats w"
  "calls (enter c w) = calls w @ [c]" "console (enter c w) = console w"
  by (simp_all add: enter_def)

lemma matches_here_marker:
  "matches_here s \<longleftrightarrow> (\<exists>kw c post. s = kw @ c # post \<and> (kw = ''import'' \<or> kw = ''export'') \<and> is_space c)"
proof
  assume m: "matches_here s"
  then obtain c post where d: "drop 6 s = c # post" and sp: "is_space c"
    by (auto simp: matches_here_def split: list.splits)
  from m have k: "take 6 s = ''import'' \<or> take 6 s = ''export''"
    by (simp add: matches_here_def)
  have "s = take 6 s @ c # post" using d by (metis append_take_drop_id)
  with k sp show "\<exists>kw c post. s = kw @ c # post \<and> (kw = ''import'' \<or> kw = ''export'') \<and> is_space c"
    by blast
next
  assume "\<exists>kw c post. s = kw @ c # post \<and> (kw = ''import'' \<or> kw = ''export'') \<and> is_space c"
  then obtain kw c post where s: "s = kw @ c # post"
    and k: "kw = ''import'' \<or> kw = ''export''" and sp: "is_space c" by blast
  from k have l: "length kw = 6" by auto
  from s l have "take 6 s = kw" "drop 6 s = c # post" by simp_all
  with k sp show "matches_here s" by (auto simp: matches_here_def)
qed

lemma regex_test_iff: "regex_test s \<longleftrightarrow> has_module_marker s"
proof (induction s)
  case Nil
  show ?case by (simp add: has_module_marker_def)
next
  case (Cons a s)
  have "has_module_marker (a # s) \<longleftrightarrow> matches_here (a # s) \<or> has_module_marker s"
  proof
    assume "has_module_marker (a # s)"
    then obtain pre kw c post where e: "a # s = pre @ kw @ c # post"
      and k: "kw = ''import'' \<or> kw = ''export''" and sp: "is_space c"
      unfolding has_module_marker_def by blast
    show "matches_here (a # s) \<or> has_module_marker s"
    proof (cases pre)
      case Nil
      with e k sp have "matches_here (a # s)"
        unfolding matches_here_marker by auto
      then show ?thesis ..
    next
      case (Cons b pre')
      with e have "s = pre' @ kw @ c # post" by simp
      with k sp have "has_module_marker s" unfolding has_module_marker_def by blast
      then show ?thesis ..
    qed
  next
    assume "matches_here (a # s) \<or> has_module_marker s"
    then show "has_module_marker (a # s)"
    proof
      assume "matches_here (a # s)"
      then obtain kw c post where "a # s = [] @ kw @ c # post"
        "kw = ''import'' \<or> kw = ''export''" "is_space c"
        unfolding matches_here_marker by auto
      then show ?thesis unfolding has_module_marker_def by blast
    next
      assume "has_module_marker s"
      then obtain pre kw c post where "s = pre @ kw @ c # post"
        "kw = ''import'' \<or> kw = ''export''" "is_space c"
        unfolding has_module_marker_def by blast
      then have "a # s = (a # pre) @ kw @ c # post" by simp
      with \<open>kw = ''import'' \<or> kw = ''export''\<close> \<open>is_space c\<close>
      show ?thesis unfolding has_module_marker_def by blast
    qed
  qed
  with Cons show ?case by simp
qed

lemma marker_export_example: "has_module_marker ''export const x=1;''"
  unfolding regex_test_iff [symmetric] by code_simp

section \<open>The JavaScript compressor\<close>

text \<open>
  Claim C6. A JavaScript file whose text holds the word \<^verbatim>\<open>import\<close> or \<^verbatim>\<open>export\<close>
  followed by a white-space character is not compressed: whatever the minifier would
  answer, the call leaves the files, the five counters and the console as they were.
\<close>

theorem module_marker_skips_compression:
  assumes "disk w p = Some s" and "has_module_marker s"
  shows "snd (compressJavaScriptFile env p w) = w"
  using assms by (simp add: compressJavaScriptFile_def readFile_def regex_test_iff)

theorem module_marker_skips_compression_witness:
  "disk (world_of disk_example) ''node_modules/index.js'' = Some ''export const x=1;''
   \<and> has_module_marker ''export const x=1;''
   \<and> snd (compressJavaScriptFile env_ok ''node_modules/index.js'' (world_of disk_example))
       = world_of disk_example"
proof -
  have d: "disk (world_of disk_example) ''node_modules/index.js'' = Some ''export const x=1;''"
    by (simp add: world_of_def disk_example_def)
  from d marker_export_example
    module_marker_skips_compression [OF d marker_export_example, of env_ok]
  show ?thesis by simp
qed

text \<open>
  Claim C10. When the minifier answers the empty string the file is not written and
  nothing is counted, although the empty string is shorter than a non-empty original:
  the file is written and counted exactly when there is no module marker, the output is
  not empty, it is strictly shorter than the original and the write succeeds. A write
  that fails counts nothing and leaves the file as it was or as the failed call left it;
  in every other case the files and the counters stay as they were.
\<close>

theorem empty_minify_output_not_written:
  assumes "readFile env p w = Some originalCode"
    and "minify env originalCode = MinifyOutput (Some code)"
  shows "(code = [] \<longrightarrow> compressJavaScriptFile env p w = (Resolved, w))
       \<and> (let w' = snd (compressJavaScriptFile env p w)
          in if \<not> regex_test originalCode \<and> code \<noteq> [] \<and> length code < length originalCode
             then (case writeFile_result env p of
                     Written \<Rightarrow>
                       disk w' = (disk w)(p \<mapsto> code)
                       \<and> jsFilesCompressed (stats w') = jsFilesCompressed (stats w) + 1
                   | OpenFails \<Rightarrow> disk w' = disk w \<and> stats w' = stats w
                   | WriteFails left \<Rightarrow> disk w' = (disk w)(p \<mapsto> left) \<and> stats w' = stats w)
             else disk w' = disk w \<and> stats w' = stats w)"
  using assms
  by (auto simp: compressJavaScriptFile_def writeFile_def emit_simps split: write_result.splits)

theorem empty_minify_output_not_written_witness:
  "readFile env_minify_empty ''node_modules/lib/util.js'' (world_of disk_example)
     = Some ''function f(a,b){return a+b;}''
   \<and> minify env_minify_empty ''function f(a,b){return a+b;}'' = MinifyOutput (Some [])
   \<and> length ([] :: string) < length ''function f(a,b){return a+b;}''
   \<and> compressJavaScriptFile env_minify_empty ''node_modules/lib/util.js'' (world_of disk_example)
       = (Resolved, world_of disk_example)"
proof -
  have r: "readFile env_minify_empty ''node_modules/lib/util.js'' (world_of disk_example)
             = Some ''function f(a,b){return a+b;}''"
    by (simp add: readFile_def world_of_def disk_example_def env_minify_empty_def env_ok_def)
  have m: "minify env_minify_empty ''function f(a,b){return a+b;}'' = MinifyOutput (Some [])"
    by (simp add: env_minify_empty_def env_ok_def)
  from r m empty_minify_output_not_written [OF r m] show ?thesis by simp
qed

section \<open>The transactional rule of the compressors\<close>

lemma js_skip:
  assumes "readFile env p w = Some orig" and "js_output env orig = None"
  shows "disk (snd (compressJavaScriptFile env p w)) = disk w"
    and "stats (snd (compressJavaScriptFile env p w)) = stats w"
  using assms
  by (simp_all add: compressJavaScriptFile_def js_output_def emit_simps
      split: minify_result.splits if_splits)

lemma js_not_written:
  assumes "readFile env p w = Some orig" and "js_output env orig = Some new"
    and "new = [] \<or> length orig \<le> length new \<or> writeFile_result env p = OpenFails"
  shows "disk (snd (compressJavaScriptFile env p w)) = disk w"
    and "stats (snd (compressJavaScriptFile env p w)) = stats w"
  using assms
  by (auto simp: compressJavaScriptFile_def js_output_def writeFile_def emit_simps
      split: minify_result.splits if_splits)

lemma js_written:
  assumes "readFile env p w = Some orig" and "js_output env orig = Some new"
    and "new \<noteq> []" and "length new < length orig" and "writeFile_result env p = Written"
  shows "disk (snd (compressJavaScriptFile env p w)) = (disk w)(p \<mapsto> new)"
    and "stats (snd (compressJavaScriptFile env p w)) =
           (stats w)\<lparr>jsFilesCompressed := jsFilesCompressed (stats w) + 1,
                     spaceSaved := spaceSaved (stats w) + (length orig - length new)\<rparr>"
  using assms
  by (auto simp: compressJavaScriptFile_def js_output_def writeFile_def emit_simps
      split: minify_result.splits if_splits)

lemma js_write_fails:
  assumes "readFile env p w = Some orig" and "js_output env orig = Some new"
    and "new \<noteq> []" and "length new < length orig"
    and "writeFile_result env p = WriteFails left"
  shows "disk (snd (compressJavaScriptFile env p w)) = (disk w)(p \<mapsto> left)"
    and "stats (snd (compressJavaScriptFile env p w)) = stats w"
  using assms
  by (auto simp: compressJavaScriptFile_def js_output_def writeFile_def emit_simps
      split: minify_result.splits if_splits)

lemma js_read_fails:
  assumes "readFile env p w = None"
  shows "compressJavaScriptFile env p w = (Rejected, w)"
  using assms by (simp add: compressJavaScriptFile_def)

lemma json_skip:
  assumes "readFile env p w = Some orig" and "json_output env orig = None"
  shows "disk (snd (compressJsonFile env p w)) = disk w"
    and "stats (snd (compressJsonFile env p w)) = stats w"
  using assms
  by (simp_all add: compressJsonFile_def json_output_def emit_simps split: option.splits)

lemma json_not_written:
  assumes "readFile env p w = Some orig" and "json_output env orig = Some new"
    and "length orig \<le> length new \<or> writeFile_result env p = OpenFails"
  shows "disk (snd (compressJsonFile env p w)) = disk w"
    and "stats (snd (compressJsonFile env p w)) = stats w"
  using assms
  by (auto simp: compressJsonFile_def json_output_def writeFile_def emit_simps
      split: option.splits)

lemma json_written:
  assumes "readFile env p w = Some orig" and "json_output env orig = Some new"
    and "length new < length orig" and "writeFile_result env p = Written"
  shows "disk (snd (compressJsonFile env p w)) = (disk w)(p \<mapsto> new)"
    and "stats (snd (compressJsonFile env p w)) =
           (stats w)\<lparr>jsonFilesCompressed := jsonFilesCompressed (stats w) + 1,
                     spaceSaved := spaceSaved (stats w) + (length orig - length new)\<rparr>"
  using assms
  by (auto simp: compressJsonFile_def json_output_def writeFile_def emit_simps
      split: option.splits)

lemma json_write_fails:
  assumes "readFile env p w = Some orig" and "json_output env orig = Some new"
    and "length new < length orig" and "writeFile_result env p = WriteFails left"
  shows "disk (snd (compressJsonFile env p w)) = (disk w)(p \<mapsto> left)"
    and "stats (snd (compressJsonFile env p w)) = stats w"
  using assms
  by (auto simp: compressJsonFile_def json_output_def writeFile_def emit_simps
      split: option.splits)

lemma json_read_fails:
  assumes "readFile env p w = None"
  shows "compressJsonFile env p w = (Rejected, w)"
  using assms by (simp add: compressJsonFile_def)

lemma js_attempt:
  "(disk (snd (compressJavaScriptFile env p w)) = disk w
      \<and> stats (snd (compressJavaScriptFile env p w)) = stats w)
   \<or> (\<exists>orig new. readFile env p w = Some orig \<and> js_output env orig = Some new
         \<and> length new < length orig \<and> writeFile_result env p = Written
         \<and> disk (snd (compressJavaScriptFile env p w)) = (disk w)(p \<mapsto> new)
         \<and> stats (snd (compressJavaScriptFile env p w)) =
             (stats w)\<lparr>jsFilesCompressed := jsFilesCompressed (stats w) + 1,
                       spaceSaved := spaceSaved (stats w) + (length orig - length new)\<rparr>)
   \<or> (\<exists>orig new left. readFile env p w = Some orig \<and> js_output env orig = Some new
         \<and> length new < length orig \<and> writeFile_result env p = WriteFails left
         \<and> disk (snd (compressJavaScriptFile env p w)) = (disk w)(p \<mapsto> left)
         \<and> stats (snd (compressJavaScriptFile env p w)) = stats w)"
proof (cases "readFile env p w")
  case None
  then show ?thesis by (simp add: js_read_fails)
next
  case (Some orig)
  note read = this
  show ?thesis
  proof (cases "js_output env orig")
    case None
    with read show ?thesis by (simp add: js_skip)
  next
    case (Some new)
    show ?thesis
    proof (cases "new \<noteq> [] \<and> length new < length orig")
      case False
      then have "new = [] \<or> length orig \<le> length new \<or> writeFile_result env p = OpenFails"
        by auto
      with read Some js_not_written [of env p w orig new] show ?thesis by blast
    next
      case True
      show ?thesis
      proof (cases "writeFile_result env p")
        case Written
        with read Some True js_written [of env p w orig new] show ?thesis by blast
      next
        case OpenFails
        with read Some js_not_written [of env p w orig new] show ?thesis by blast
      next
        case (WriteFails left)
        with read Some True js_write_fails [of env p w orig new left] show ?thesis by blast
      qed
    qed
  qed
qed

lemma json_attempt:
  "(disk (snd (compressJsonFile env p w)) = disk w
      \<and> stats (snd (compressJsonFile env p w)) = stats w)
   \<or> (\<exists>orig new. readFile env p w = Some orig \<and> json_output env orig = Some new
         \<and> length new < length orig \<and> writeFile_result env p = Written
         \<and> disk (snd (compressJsonFile env p w)) = (disk w)(p \<mapsto> new)
         \<and> stats (snd (compressJsonFile env p w)) =
             (stats w)\<lparr>jsonFilesCompressed := jsonFilesCompressed (stats w) + 1,
                       spaceSaved := spaceSaved (stats w) + (length orig - length new)\<rparr>)
   \<or> (\<exists>orig new left. readFile env p w = Some orig \<and> json_output env orig = Some new
         \<and> length new < length orig \<and> writeFile_result env p = WriteFails left
         \<and> disk (snd (compressJsonFile env p w)) = (disk w)(p \<mapsto> left)
         \<and> stats (snd (compressJsonFile env p w)) = stats w)"
proof (cases "readFile env p w")
  case None
  then show ?thesis by (simp add: json_read_fails)
next
  case (Some orig)
  note read = this
  show ?thesis
  proof (cases "json_output env orig")
    case None
    with read show ?thesis by (simp add: json_skip)
  next
    case (Some new)
    show ?thesis
    proof (cases "length new < length orig")
      case False
      then have "length orig \<le> length new \<or> writeFile_result env p = OpenFails" by auto
      with read Some json_not_written [of env p w orig new] show ?thesis by blast
    next
      case True
      show ?thesis
      proof (cases "writeFile_result env p")
        case Written
        with read Some True json_written [of env p w orig new] show ?thesis by blast
      next
        case OpenFails
        with read Some json_not_written [of env p w orig new] show ?thesis by blast
      next
        case (WriteFails left)
        with read Some True json_write_fails [of env p w orig new left] show ?thesis by blast
      qed
    qed
  qed
qed

lemma js_unchanged:
  assumes "readFile env p w = None \<or> writeFile_result env p = OpenFails
     \<or> (\<exists>orig. readFile env p w = Some orig
           \<and> (js_output env orig = None
               \<or> (\<exists>new. js_output env orig = Some new \<and> length orig \<le> length new)))"
  shows "disk (snd (compressJavaScriptFile env p w)) = disk w
       \<and> stats (snd (compressJavaScriptFile env p w)) = stats w"
proof (cases "readFile env p w")
  case None
  then show ?thesis by (simp add: js_read_fails)
next
  case (Some orig)
  note read = this
  show ?thesis
  proof (cases "js_output env orig")
    case None
    with read show ?thesis by (simp add: js_skip)
  next
    case (Some new)
    with assms read
    have "new = [] \<or> length orig \<le> length new \<or> writeFile_result env p = OpenFails" by auto
    with read Some js_not_written [of env p w orig new] show ?thesis by blast
  qed
qed

lemma json_unchanged:
  assumes "readFile env p w = None \<or> writeFile_result env p = OpenFails
     \<or> (\<exists>orig. readFile env p w = Some orig
           \<and> (json_output env orig = None
               \<or> (\<exists>new. json_output env orig = Some new \<and> length orig \<le> length new)))"
  shows "disk (snd (compressJsonFile env p w)) = disk w
       \<and> stats (snd (compressJsonFile env p w)) = stats w"
proof (cases "readFile env p w")
  case None
  then show ?thesis by (simp add: json_read_fails)
next
  case (Some orig)
  note read = this
  show ?thesis
  proof (cases "json_output env orig")
    case None
    with read show ?thesis by (simp add: json_skip)
  next
    case (Some new)
    with assms read
    have "length orig \<le> length new \<or> writeFile_result env p = OpenFails" by auto
    with read Some json_not_written [of env p w orig new] show ?thesis by blast
  qed
qed

text \<open>
  Claim C4 says that every failure of a compression attempt leaves the file byte for
  byte unchanged. A write that fails after the file was opened does not: here the write
  of \<^verbatim>\<open>node_modules/data.json\<close> fails so and the file, which held five characters, is
  left empty.
\<close>

theorem failed_write_changes_file_counterexample:
  "writeFile_result env_write_truncates ''node_modules/data.json'' = WriteFails []
   \<and> disk (world_of disk_example) ''node_modules/data.json'' = Some ''{   }''
   \<and> disk (snd (compressJsonFile env_write_truncates ''node_modules/data.json''
         (world_of disk_example))) ''node_modules/data.json'' = Some []"
  by code_simp

text \<open>
  Claim C4, amended. A compression attempt, of a JavaScript or of a JSON file, touches
  the file only when it has read it and produced an output strictly shorter than the
  original. Then a write that succeeds replaces the file's text by the output, raises the
  counter of its kind by one and \<open>spaceSaved\<close> by the difference of the two lengths; a
  write that fails after the file was opened counts nothing and leaves the file as the
  failed call left it. A failed read, a write that fails before the file is opened, no
  output (a parse failure, an exception, a module marker) and an output as long as the
  original or longer all leave the files and the counters alone; and whenever the write
  does not succeed no counter changes.
\<close>

theorem compression_is_transactional:
  "let w1 = snd (compressJavaScriptFile env p w); w2 = snd (compressJsonFile env p w)
   in ((disk w1 = disk w \<and> stats w1 = stats w)
        \<or> (\<exists>orig new. readFile env p w = Some orig \<and> js_output env orig = Some new
              \<and> length new < length orig \<and> writeFile_result env p = Written
              \<and> disk w1 = (disk w)(p \<mapsto> new)
              \<and> stats w1 = (stats w)\<lparr>jsFilesCompressed := jsFilesCompressed (stats w) + 1,
                     spaceSaved := spaceSaved (stats w) + (length orig - length new)\<rparr>)
        \<or> (\<exists>orig new left. readFile env p w = Some orig \<and> js_output env orig = Some new
              \<and> length new < length orig \<and> writeFile_result env p = WriteFails left
              \<and> disk w1 = (disk w)(p \<mapsto> left) \<and> stats w1 = stats w))
    \<and> ((disk w2 = disk w \<and> stats w2 = stats w)
        \<or> (\<exists>orig new. readFile env p w = Some orig \<and> json_output env orig = Some new
              \<and> length new < length orig \<and> writeFile_result env p = Written
              \<and> disk w2 = (disk w)(p \<mapsto> new)
              \<and> stats w2 = (stats w)\<lparr>jsonFilesCompressed := jsonFilesCompressed (stats w) + 1,
                     spaceSaved := spaceSaved (stats w) + (length orig - length new)\<rparr>)
        \<or> (\<exists>orig new left. readFile env p w = Some orig \<and> json_output env orig = Some new
              \<and> length new < length orig \<and> writeFile_result env p = WriteFails left
              \<and> disk w2 = (disk w)(p \<mapsto> left) \<and> stats w2 = stats w))
    \<and> (readFile env p w = None \<or> writeFile_result env p = OpenFails
          \<or> (\<exists>orig. readFile env p w = Some orig
                \<and> (js_output env orig = None
                    \<or> (\<exists>new. js_output env orig = Some new \<and> length orig \<le> length new)))
        \<longrightarrow> disk w1 = disk w \<and> stats w1 = stats w)
    \<and> (readFile env p w = None \<or> writeFile_result env p = OpenFails
          \<or> (\<exists>orig. readFile env p w = Some orig
                \<and> (json_output env orig = None
                    \<or> (\<exists>new. json_output env orig = Some new \<and> length orig \<le> length new)))
        \<longrightarrow> disk w2 = disk w \<and> stats w2 = stats w)
    \<and> (writeFile_result env p \<noteq> Written \<longrightarrow> stats w1 = stats w \<and> stats w2 = stats w)"
proof -
  have e: "stats (snd (compressJavaScriptFile env p w)) = stats w
         \<and> stats (snd (compressJsonFile env p w)) = stats w"
    if "writeFile_result env p \<noteq> Written"
    using that js_attempt [of env p w] json_attempt [of env p w] by auto
  show ?thesis
    unfolding Let_def
    by (intro conjI;
        (rule js_attempt | rule json_attempt | (rule impI, erule js_unchanged)
         | (rule impI, erule json_unchanged) | (rule impI, erule e)))
qed

theorem compression_is_transactional_witness:
  "readFile env_ok ''node_modules/tie.json'' (world_of disk_example) = Some ''{}''
   \<and> js_output env_ok ''{}'' = Some ''f()'' \<and> length ''{}'' \<le> length ''f()''
   \<and> json_output env_ok ''{}'' = Some ''{}'' \<and> length ''{}'' \<le> length ''{}''
   \<and> disk (snd (compressJavaScriptFile env_ok ''node_modules/tie.json'' (world_of disk_example)))
       = disk_example
   \<and> stats (snd (compressJavaScriptFile env_ok ''node_modules/tie.json'' (world_of disk_example)))
       = initial_stats
   \<and> disk (snd (compressJsonFile env_ok ''node_modules/tie.json'' (world_of disk_example)))
       = disk_example
   \<and> stats (snd (compressJsonFile env_ok ''node_modules/tie.json'' (world_of disk_example)))
       = initial_stats
   \<and> writeFile_result env_write_truncates ''node_modules/data.json'' \<noteq> Written
   \<and> stats (snd (compressJavaScriptFile env_write_truncates ''node_modules/data.json''
         (world_of disk_example))) = initial_stats
   \<and> stats (snd (compressJsonFile env_write_truncates ''node_modules/data.json''
         (world_of disk_example))) = initial_stats"
proof -
  let ?p = "''node_modules/tie.json''"
  let ?q = "''node_modules/data.json''"
  let ?w = "world_of disk_example"
  have r: "readFile env_ok ?p ?w = Some ''{}''"
    by (simp add: readFile_def world_of_def disk_example_def env_ok_def)
  have j1: "js_output env_ok ''{}'' = Some ''f()''"
    by (simp add: js_output_def env_ok_def matches_here_def)
  have j2: "json_output env_ok ''{}'' = Some ''{}''"
    by (simp add: json_output_def env_ok_def)
  have l1: "length ''{}'' \<le> length ''f()''" and l2: "length ''{}'' \<le> length ''{}''"
    by simp_all
  have h1: "readFile env_ok ?p ?w = None \<or> writeFile_result env_ok ?p = OpenFails
          \<or> (\<exists>orig. readFile env_ok ?p ?w = Some orig
                \<and> (js_output env_ok orig = None
                    \<or> (\<exists>new. js_output env_ok orig = Some new \<and> length orig \<le> length new)))"
    using r j1 l1 by blast
  have h2: "readFile env_ok ?p ?w = None \<or> writeFile_result env_ok ?p = OpenFails
          \<or> (\<exists>orig. readFile env_ok ?p ?w = Some orig
                \<and> (json_output env_ok orig = None
                    \<or> (\<exists>new. json_output env_ok orig = Some new \<and> length orig \<le> length new)))"
    using r j2 l2 by blast
  have h3: "writeFile_result env_write_truncates ?q \<noteq> Written"
    by (simp add: env_write_truncates_def)
  have w: "disk ?w = disk_example" "stats ?w = initial_stats"
    by (simp_all add: world_of_def)
  from compression_is_transactional [of env_ok ?p ?w, unfolded Let_def] h1 h2
  have a: "disk (snd (compressJavaScriptFile env_ok ?p ?w)) = disk ?w
      \<and> stats (snd (compressJavaScriptFile env_ok ?p ?w)) = stats ?w
      \<and> disk (snd (compressJsonFile env_ok ?p ?w)) = disk ?w
      \<and> stats (snd (compressJsonFile env_ok ?p ?w)) = stats ?w"
    by blast
  from compression_is_transactional [of env_write_truncates ?q ?w, unfolded Let_def] h3
  have b: "stats (snd (compressJavaScriptFile env_write_truncates ?q ?w)) = stats ?w
      \<and> stats (snd (compressJsonFile env_write_truncates ?q ?w)) = stats ?w"
    by blast
  from a b r j1 j2 l1 l2 h3 w show ?thesis by simp
qed

section \<open>The JSON round trip\<close>




section \<open>The extension of a joined path\<close>

lemma ext_ok_init: "ext_ok ext_init"
  by (simp add: ext_ok_def ext_init_def)

lemma ext_ok_step: "ext_ok s \<Longrightarrow> ext_ok (ext_step c i s)"
  by (simp add: ext_ok_def ext_step_def Let_def)

lemma shift_init: "shift k ext_init = ext_init"
  by (simp add: shift_def ext_init_def)

lemma ext_step_shift:
  "ext_ok s \<Longrightarrow> ext_step c (k + i) (shift k s) = shift k (ext_step c i s)"
  by (auto simp: ext_ok_def ext_step_def shift_def Let_def)

lemma startPart_step: "startPart (ext_step c i s) = startPart s"
  by (simp add: ext_step_def Let_def)

lemma matchedSlash_step: "\<not> matchedSlash s \<Longrightarrow> \<not> matchedSlash (ext_step c i s)"
  by (simp add: ext_step_def Let_def)

lemma matchedSlash_first: "endAt s = -1 \<Longrightarrow> \<not> matchedSlash (ext_step c i s)"
  by (simp add: ext_step_def Let_def)

lemma no_slash_nth: "CHR ''/'' \<notin> set name \<Longrightarrow> i < length name \<Longrightarrow> name ! i \<noteq> CHR ''/''"
  by (metis nth_mem)

lemma loop_no_slash:
  assumes "CHR ''/'' \<notin> set name" and "i \<le> length name"
  shows "ext_ok s \<Longrightarrow> ext_ok (extname_loop name i s)"
    and "startPart (extname_loop name i s) = startPart s"
    and "\<not> matchedSlash s \<Longrightarrow> \<not> matchedSlash (extname_loop name i s)"
  using assms
  by (induction i arbitrary: s)
     (auto simp: ext_ok_step startPart_step matchedSlash_step no_slash_nth)

lemma loop_name_part:
  assumes "CHR ''/'' \<notin> set name" and "i \<le> length name" and "ext_ok s"
  shows "extname_loop (pre @ name) (length pre + i) (shift (length pre) s)
       = extname_loop (pre @ name) (length pre) (shift (length pre) (extname_loop name i s))"
  using assms
proof (induction i arbitrary: s)
  case 0
  show ?case by simp
next
  case (Suc i)
  from Suc.prems have c: "name ! i \<noteq> CHR ''/''" by (metis Suc_le_lessD nth_mem)
  have n: "(pre @ name) ! (length pre + i) = name ! i" by simp
  from Suc.prems have i: "i \<le> length name" by simp
  have "extname_loop (pre @ name) (length pre + Suc i) (shift (length pre) s)
      = extname_loop (pre @ name) (length pre + i)
          (ext_step (name ! i) (length pre + i) (shift (length pre) s))"
    using c n by simp
  also have "\<dots> = extname_loop (pre @ name) (length pre + i)
          (shift (length pre) (ext_step (name ! i) i s))"
    using Suc.prems by (simp add: ext_step_shift)
  also have "\<dots> = extname_loop (pre @ name) (length pre)
          (shift (length pre) (extname_loop name i (ext_step (name ! i) i s)))"
    using Suc.IH [OF Suc.prems(1) i ext_ok_step [OF Suc.prems(3)]] .
  also have "extname_loop name i (ext_step (name ! i) i s) = extname_loop name (Suc i) s"
    using c by simp
  finally show ?case .
qed

lemma loop_nonempty_unmatched:
  assumes "CHR ''/'' \<notin> set name" and "name \<noteq> []"
  shows "\<not> matchedSlash (extname_loop name (length name) ext_init)"
proof -
  from assms(2) obtain m where m: "length name = Suc m" by (cases name) auto
  with assms(1) have c: "name ! m \<noteq> CHR ''/''" by (metis lessI nth_mem)
  have "\<not> matchedSlash (ext_step (name ! m) m ext_init)"
    by (rule matchedSlash_first) (simp add: ext_init_def)
  then have "\<not> matchedSlash (extname_loop name m (ext_step (name ! m) m ext_init))"
    using loop_no_slash(3) [OF assms(1), of m] m by simp
  with c m show ?thesis by simp
qed

lemma ext_result_shift:
  assumes "ext_ok s" and "startPart s = 0"
  shows "ext_result (pre @ name) ((shift (length pre) s)\<lparr>startPart := int (length pre)\<rparr>)
       = ext_result name s"
  using assms
  by (auto simp: ext_result_def shift_def ext_ok_def nat_add_distrib)

lemma extname_join:
  assumes "CHR ''/'' \<notin> set name" and "name \<noteq> []"
  shows "extname (path_join dir name) = extname name"
proof -
  let ?pre = "dir @ ''/''"
  let ?t = "extname_loop name (length name) ext_init"
  have ok: "ext_ok ?t" using loop_no_slash(1) [OF assms(1) le_refl ext_ok_init] .
  have sp: "startPart ?t = 0" using loop_no_slash(2) [OF assms(1) le_refl] by (simp add: ext_init_def)
  have um: "\<not> matchedSlash (shift (length ?pre) ?t)"
    using loop_nonempty_unmatched [OF assms] by (simp add: shift_def)
  have "extname_loop (?pre @ name) (length (?pre @ name)) ext_init
      = extname_loop (?pre @ name) (length ?pre + length name) (shift (length ?pre) ext_init)"
    by (simp add: shift_init)
  also have "\<dots> = extname_loop (?pre @ name) (length ?pre) (shift (length ?pre) ?t)"
    using loop_name_part [OF assms(1) le_refl ext_ok_init] .
  also have "\<dots> = (shift (length ?pre) ?t)\<lparr>startPart := int (length ?pre)\<rparr>"
    using um by simp
  finally have fin: "extname_loop (?pre @ name) (length (?pre @ name)) ext_init
      = (shift (length ?pre) ?t)\<lparr>startPart := int (length ?pre)\<rparr>" .
  have "extname (?pre @ name)
      = ext_result (?pre @ name) ((shift (length ?pre) ?t)\<lparr>startPart := int (length ?pre)\<rparr>)"
    by (simp only: extname_def fin)
  also have "\<dots> = ext_result name ?t"
    by (rule ext_result_shift [OF ok sp])
  finally have "extname (?pre @ name) = extname name"
    by (simp only: extname_def)
  moreover have "path_join dir name = ?pre @ name"
    by (simp add: path_join_def)
  ultimately show ?thesis by simp
qed

section \<open>Classification\<close>

lemma compressFile_by_ext:
  "compressFile env p w =
     (if extname p = ''.js''
      then catch_compress p (compressJavaScriptFile env p (emit (LogCompressing p) w))
      else if extname p = ''.json''
      then catch_compress p (compressJsonFile env p (emit (LogCompressing p) w))
      else (Resolved, emit (LogCompressing p) w))"
  by (simp add: compressFile_def Let_def EXT_JS_def EXT_JSON_def)

lemma processFile_by_classify:
  assumes "CHR ''/'' \<notin> set name" and "name \<noteq> []"
  shows "processFile env name (path_join dir name) w =
     (let p = path_join dir name;
          w1 = enter (ProcessFile name p) w;
          w2 = emit (LogCompressing p) w1
      in case classify name of
           Delete \<Rightarrow> deleteFile env p w1
         | CompressJS \<Rightarrow> catch_compress p (compressJavaScriptFile env p w2)
         | CompressJSON \<Rightarrow> catch_compress p (compressJsonFile env p w2)
         | Skip \<Rightarrow> (Resolved, w2))"
  by (simp add: processFile_def classify_def compressFile_by_ext extname_join [OF assms]
      Let_def EXT_MD_def EXT_TS_def)

lemma lower_fixed:
  "toLowerCase ''.md'' = ''.md''" "toLowerCase ''.ts'' = ''.ts''"
  "toLowerCase ''.js'' = ''.js''" "toLowerCase ''.json'' = ''.json''"
  by (simp_all add: toLowerCase_def lower_char_def)

text \<open>
  Claim C5. What \<^verbatim>\<open>processFile\<close> does with a directory entry is decided by the
  entry's name alone, through \<open>classify\<close>, which gives every name one of the four
  decisions, the first of these that applies: \<open>Delete\<close> for the extension \<^verbatim>\<open>.md\<close> or
  \<^verbatim>\<open>.ts\<close> or a lower-cased name in the lint set, \<open>CompressJS\<close> for \<^verbatim>\<open>.js\<close>,
  \<open>CompressJSON\<close> for \<^verbatim>\<open>.json\<close>, \<open>Skip\<close> otherwise. The decision selects the
  deletion, one of the two compressors, or nothing; neither the file's content nor its
  size takes part in it.
\<close>

theorem processFile_follows_classify:
  assumes "dirent_name name"
  shows "processFile env name (path_join dir name) w =
     (let p = path_join dir name;
          w1 = enter (ProcessFile name p) w;
          w2 = emit (LogCompressing p) w1
      in case classify name of
           Delete \<Rightarrow> deleteFile env p w1
         | CompressJS \<Rightarrow> catch_compress p (compressJavaScriptFile env p w2)
         | CompressJSON \<Rightarrow> catch_compress p (compressJsonFile env p w2)
         | Skip \<Rightarrow> (Resolved, w2))"
  using assms processFile_by_classify [of name env dir w] by (simp add: dirent_name_def)

theorem processFile_follows_classify_witness:
  "dirent_name ''README.md'' \<and> classify ''README.md'' = Delete
   \<and> processFile env_ok ''README.md'' (path_join ''node_modules'' ''README.md'')
         (world_of disk_example)
       = deleteFile env_ok (path_join ''node_modules'' ''README.md'')
           (enter (ProcessFile ''README.md'' (path_join ''node_modules'' ''README.md''))
              (world_of disk_example))"
proof -
  have d: "dirent_name ''README.md''" by (simp add: dirent_name_def)
  have c: "classify ''README.md'' = Delete" by code_simp
  from d c processFile_follows_classify [OF d, of env_ok "''node_modules''" "world_of disk_example"]
  show ?thesis by (simp add: Let_def)
qed

text \<open>
  Claim C9. Extensions are compared as they are written, while the lint names are
  compared in lower case: a file whose extension is an upper-case or mixed-case spelling
  of \<^verbatim>\<open>.md\<close>, \<^verbatim>\<open>.ts\<close>, \<^verbatim>\<open>.js\<close> or \<^verbatim>\<open>.json\<close>, and whose lower-cased name is not a
  lint name, is skipped: it is neither deleted nor compressed, and the files and the
  counters stay as they were.
\<close>

theorem case_variant_extension_is_skipped:
  assumes "dirent_name name"
    and "extname name \<noteq> toLowerCase (extname name)"
    and "toLowerCase (extname name) \<in> {''.md'', ''.ts'', ''.js'', ''.json''}"
    and "toLowerCase name \<notin> set ESLINT_FILES"
  shows "classify name = Skip
       \<and> processFile env name (path_join dir name) w
           = (Resolved, emit (LogCompressing (path_join dir name))
                          (enter (ProcessFile name (path_join dir name)) w))
       \<and> disk (snd (processFile env name (path_join dir name) w)) = disk w
       \<and> stats (snd (processFile env name (path_join dir name) w)) = stats w"
proof -
  have e: "extname name \<noteq> ''.md''" "extname name \<noteq> ''.ts''"
    "extname name \<noteq> ''.js''" "extname name \<noteq> ''.json''"
    using assms(2) lower_fixed by auto
  with assms(4) have c: "classify name = Skip" by (simp add: classify_def)
  from assms(1) have n: "CHR ''/'' \<notin> set name" "name \<noteq> []" by (simp_all add: dirent_name_def)
  have p: "processFile env name (path_join dir name) w
           = (Resolved, emit (LogCompressing (path_join dir name))
                          (enter (ProcessFile name (path_join dir name)) w))"
    using processFile_by_classify [OF n, of env dir w] c by (simp add: Let_def)
  from c p show ?thesis by (simp add: emit_simps enter_simps)
qed

theorem case_variant_extension_is_skipped_witness:
  "dirent_name ''README.MD''
   \<and> extname ''README.MD'' \<noteq> toLowerCase (extname ''README.MD'')
   \<and> toLowerCase (extname ''README.MD'') \<in> {''.md'', ''.ts'', ''.js'', ''.json''}
   \<and> toLowerCase ''README.MD'' \<notin> set ESLINT_FILES
   \<and> classify ''README.MD'' = Skip
   \<and> disk (snd (processFile env_ok ''README.MD'' (path_join ''node_modules'' ''README.MD'')
         (world_of disk_example))) = disk_example
   \<and> stats (snd (processFile env_ok ''README.MD'' (path_join ''node_modules'' ''README.MD'')
         (world_of disk_example))) = initial_stats"
proof -
  have h1: "dirent_name ''README.MD''" by (simp add: dirent_name_def)
  have h2: "extname ''README.MD'' \<noteq> toLowerCase (extname ''README.MD'')" by code_simp
  have h3: "toLowerCase (extname ''README.MD'') \<in> {''.md'', ''.ts'', ''.js'', ''.json''}"
    by code_simp
  have h4: "toLowerCase ''README.MD'' \<notin> set ESLINT_FILES" by code_simp
  from h1 h2 h3 h4
    case_variant_extension_is_skipped [OF h1 h2 h3 h4, of env_ok "''node_modules''"
      "world_of disk_example"]
  show ?thesis by (simp add: world_of_def emit_simps enter_simps)
qed

section \<open>The counters of a run\<close>

lemma visited_of_append: "visited_of d (a @ b) = visited_of d a + visited_of d b"
  by (simp add: visited_of_def)

lemma delete_sizes_append: "delete_sizes env (a @ b) = delete_sizes env a + delete_sizes env b"
  by (simp add: delete_sizes_def)

lemma files_visited_split:
  "files_visited cs = visited_of Delete cs + visited_of CompressJS cs
     + visited_of CompressJSON cs + visited_of Skip cs"
proof (induction cs)
  case Nil
  show ?case by (simp add: files_visited_def visited_of_def)
next
  case (Cons c cs)
  show ?case
  proof (cases c)
    case (ProcessDirectory dir)
    with Cons show ?thesis by (simp add: files_visited_def visited_of_def)
  next
    case (ProcessFile name p)
    with Cons show ?thesis
      by (cases "classify name") (simp_all add: files_visited_def visited_of_def)
  qed
qed

lemma accountedI:
  assumes "calls w' = calls w @ cs"
    and "deletedFiles (stats w') \<le> deletedFiles (stats w) + visited_of Delete cs"
    and "jsFilesCompressed (stats w') \<le> jsFilesCompressed (stats w) + visited_of CompressJS cs"
    and "jsonFilesCompressed (stats w')
           \<le> jsonFilesCompressed (stats w) + visited_of CompressJSON cs"
    and "spaceFreed (stats w') \<le> spaceFreed (stats w) + delete_sizes env cs"
    and "visited_of CompressJS cs + visited_of CompressJSON cs = 0
           \<longrightarrow> spaceSaved (stats w') = spaceSaved (stats w)"
  shows "accounted env w w'"
  unfolding accounted_def using assms by (intro exI [of _ cs] conjI)

lemma accountedE:
  assumes "accounted env w w'"
  obtains cs where "calls w' = calls w @ cs"
    and "deletedFiles (stats w') \<le> deletedFiles (stats w) + visited_of Delete cs"
    and "jsFilesCompressed (stats w') \<le> jsFilesCompressed (stats w) + visited_of CompressJS cs"
    and "jsonFilesCompressed (stats w')
           \<le> jsonFilesCompressed (stats w) + visited_of CompressJSON cs"
    and "spaceFreed (stats w') \<le> spaceFreed (stats w) + delete_sizes env cs"
    and "visited_of CompressJS cs + visited_of CompressJSON cs = 0
           \<longrightarrow> spaceSaved (stats w') = spaceSaved (stats w)"
  using assms unfolding accounted_def by (elim exE conjE) (rule that)

lemma accounted_same:
  assumes "calls w' = calls w" and "stats w' = stats w"
  shows "accounted env w w'"
  by (rule accountedI [of _ _ "[]"]) (simp_all add: assms visited_of_def delete_sizes_def)

lemma accounted_trans:
  assumes "accounted env w1 w2" and "accounted env w2 w3"
  shows "accounted env w1 w3"
proof -
  from assms(1) obtain a where a: "calls w2 = calls w1 @ a"
    "deletedFiles (stats w2) \<le> deletedFiles (stats w1) + visited_of Delete a"
    "jsFilesCompressed (stats w2) \<le> jsFilesCompressed (stats w1) + visited_of CompressJS a"
    "jsonFilesCompressed (stats w2) \<le> jsonFilesCompressed (stats w1) + visited_of CompressJSON a"
    "spaceFreed (stats w2) \<le> spaceFreed (stats w1) + delete_sizes env a"
    "visited_of CompressJS a + visited_of CompressJSON a = 0
       \<longrightarrow> spaceSaved (stats w2) = spaceSaved (stats w1)"
    by (rule accountedE)
  from assms(2) obtain b where b: "calls w3 = calls w2 @ b"
    "deletedFiles (stats w3) \<le> deletedFiles (stats w2) + visited_of Delete b"
    "jsFilesCompressed (stats w3) \<le> jsFilesCompressed (stats w2) + visited_of CompressJS b"
    "jsonFilesCompressed (stats w3) \<le> jsonFilesCompressed (stats w2) + visited_of CompressJSON b"
    "spaceFreed (stats w3) \<le> spaceFreed (stats w2) + delete_sizes env b"
    "visited_of CompressJS b + visited_of CompressJSON b = 0
       \<longrightarrow> spaceSaved (stats w3) = spaceSaved (stats w2)"
    by (rule accountedE)
  show ?thesis
  proof (rule accountedI [of _ _ "a @ b"])
    show "calls w3 = calls w1 @ a @ b" using a(1) b(1) by simp
    show "deletedFiles (stats w3) \<le> deletedFiles (stats w1) + visited_of Delete (a @ b)"
      using a(2) b(2) by (simp add: visited_of_append)
    show "jsFilesCompressed (stats w3)
        \<le> jsFilesCompressed (stats w1) + visited_of CompressJS (a @ b)"
      using a(3) b(3) by (simp add: visited_of_append)
    show "jsonFilesCompressed (stats w3)
        \<le> jsonFilesCompressed (stats w1) + visited_of CompressJSON (a @ b)"
      using a(4) b(4) by (simp add: visited_of_append)
    show "spaceFreed (stats w3) \<le> spaceFreed (stats w1) + delete_sizes env (a @ b)"
      using a(5) b(5) by (simp add: delete_sizes_append)
    show "visited_of CompressJS (a @ b) + visited_of CompressJSON (a @ b) = 0
         \<longrightarrow> spaceSaved (stats w3) = spaceSaved (stats w1)"
      using a(6) b(6) by (simp add: visited_of_append)
  qed
qed


lemma unlink_effect:
  "stats (case unlink env p w of None \<Rightarrow> emit e w | Some w' \<Rightarrow> w') = stats w"
  "calls (case unlink env p w of None \<Rightarrow> emit e w | Some w' \<Rightarrow> w') = calls w"
  by (simp_all add: unlink_def emit_simps)

lemma deleteFile_effect:
  "calls (snd (deleteFile env p w)) = calls w"
  "jsFilesCompressed (stats (snd (deleteFile env p w))) = jsFilesCompressed (stats w)"
  "jsonFilesCompressed (stats (snd (deleteFile env p w))) = jsonFilesCompressed (stats w)"
  "spaceSaved (stats (snd (deleteFile env p w))) = spaceSaved (stats w)"
  "deletedFiles (stats (snd (deleteFile env p w))) \<le> deletedFiles (stats w) + 1"
  "spaceFreed (stats (snd (deleteFile env p w)))
     \<le> spaceFreed (stats w) + (case stat_size env p of None \<Rightarrow> 0 | Some n \<Rightarrow> n)"
  by (simp_all add: deleteFile_def Let_def emit_simps unlink_effect split: option.splits)

lemma catch_compress_effect:
  "stats (snd (catch_compress p r)) = stats (snd r)"
  "calls (snd (catch_compress p r)) = calls (snd r)"
  "disk (snd (catch_compress p r)) = disk (snd r)"
  "fst (catch_compress p r) = Resolved"
  by (cases r; cases "fst r"; simp add: catch_compress_def emit_simps)+

lemma js_effect:
  "calls (snd (compressJavaScriptFile env p w)) = calls w"
  "deletedFiles (stats (snd (compressJavaScriptFile env p w))) = deletedFiles (stats w)"
  "spaceFreed (stats (snd (compressJavaScriptFile env p w))) = spaceFreed (stats w)"
  "jsonFilesCompressed (stats (snd (compressJavaScriptFile env p w)))
     = jsonFilesCompressed (stats w)"
  "jsFilesCompressed (stats (snd (compressJavaScriptFile env p w)))
     \<le> jsFilesCompressed (stats w) + 1"
  by (simp_all add: compressJavaScriptFile_def writeFile_def emit_simps
      split: option.splits minify_result.splits write_result.splits)

lemma json_effect:
  "calls (snd (compressJsonFile env p w)) = calls w"
  "deletedFiles (stats (snd (compressJsonFile env p w))) = deletedFiles (stats w)"
  "spaceFreed (stats (snd (compressJsonFile env p w))) = spaceFreed (stats w)"
  "jsFilesCompressed (stats (snd (compressJsonFile env p w))) = jsFilesCompressed (stats w)"
  "jsonFilesCompressed (stats (snd (compressJsonFile env p w)))
     \<le> jsonFilesCompressed (stats w) + 1"
  by (simp_all add: compressJsonFile_def writeFile_def emit_simps
      split: option.splits write_result.splits)

lemma visited_of_single:
  "visited_of d [ProcessFile name p] = (if classify name = d then 1 else 0)"
  "visited_of d [ProcessDirectory dir] = 0"
  by (simp_all add: visited_of_def)

lemma delete_sizes_single:
  "delete_sizes env [ProcessFile name p] =
     (if classify name = Delete then (case stat_size env p of None \<Rightarrow> 0 | Some n \<Rightarrow> n) else 0)"
  "delete_sizes env [ProcessDirectory dir] = 0"
  by (simp_all add: delete_sizes_def)

lemma processFile_accounted:
  assumes "CHR ''/'' \<notin> set name" and "name \<noteq> []"
  shows "accounted env w (snd (processFile env name (path_join dir name) w))"
proof (rule accountedI [of _ _ "[ProcessFile name (path_join dir name)]"])
  let ?p = "path_join dir name"
  let ?w' = "snd (processFile env name ?p w)"
  note pf = processFile_by_classify [OF assms, of env dir w]
  note eff = deleteFile_effect js_effect json_effect catch_compress_effect emit_simps enter_simps
  show "calls ?w' = calls w @ [ProcessFile name ?p]"
    by (cases "classify name") (simp_all add: pf Let_def eff)
  show "deletedFiles (stats ?w') \<le> deletedFiles (stats w) + visited_of Delete [ProcessFile name ?p]"
  proof (cases "classify name")
    case Delete
    then show ?thesis
      using deleteFile_effect(5) [of env ?p "enter (ProcessFile name ?p) w"]
      by (simp add: pf Let_def visited_of_single enter_simps)
  qed (simp_all add: pf Let_def eff visited_of_single)
  show "jsFilesCompressed (stats ?w')
      \<le> jsFilesCompressed (stats w) + visited_of CompressJS [ProcessFile name ?p]"
  proof (cases "classify name")
    case CompressJS
    then show ?thesis
      using js_effect(5) [of env ?p "emit (LogCompressing ?p) (enter (ProcessFile name ?p) w)"]
      by (simp add: pf Let_def visited_of_single enter_simps emit_simps catch_compress_effect)
  qed (simp_all add: pf Let_def eff visited_of_single)
  show "jsonFilesCompressed (stats ?w')
      \<le> jsonFilesCompressed (stats w) + visited_of CompressJSON [ProcessFile name ?p]"
  proof (cases "classify name")
    case CompressJSON
    then show ?thesis
      using json_effect(5) [of env ?p "emit (LogCompressing ?p) (enter (ProcessFile name ?p) w)"]
      by (simp add: pf Let_def visited_of_single enter_simps emit_simps catch_compress_effect)
  qed (simp_all add: pf Let_def eff visited_of_single)
  show "spaceFreed (stats ?w') \<le> spaceFreed (stats w) + delete_sizes env [ProcessFile name ?p]"
  proof (cases "classify name")
    case Delete
    then show ?thesis
      using deleteFile_effect(6) [of env ?p "enter (ProcessFile name ?p) w"]
      by (simp add: pf Let_def delete_sizes_single enter_simps)
  qed (simp_all add: pf Let_def eff delete_sizes_single)
  show "visited_of CompressJS [ProcessFile name ?p]
        + visited_of CompressJSON [ProcessFile name ?p] = 0
      \<longrightarrow> spaceSaved (stats ?w') = spaceSaved (stats w)"
    by (cases "classify name") (simp_all add: pf Let_def eff visited_of_single)
qed

lemma walk_accounted:
  "list_all tree_names_ok files \<longrightarrow> accounted env w (snd (processDirectory env dir files w))"
  "list_all tree_names_ok files \<longrightarrow> accounted env w (snd (processEntries env dir files w))"
  "tree_names_ok ent \<longrightarrow> accounted env w (snd (processEntry env dir ent w))"
proof (induction env dir files w and env dir files w and env dir ent w
    rule: processDirectory_processEntries_processEntry.induct)
  case (1 env dir files w0)
  have e: "accounted env w0 (enter (ProcessDirectory dir) w0)"
    by (rule accountedI [of _ _ "[ProcessDirectory dir]"])
       (simp_all add: enter_simps visited_of_single delete_sizes_single)
  show ?case
  proof (cases "readdir_fails env dir")
    case True
    with e show ?thesis by simp
  next
    case False
    with 1 e show ?thesis by (auto intro: accounted_trans)
  qed
next
  case (2 env dir w)
  show ?case by (simp add: accounted_same)
next
  case (3 env dir ent files w)
  show ?case
  proof
    assume ok: "list_all tree_names_ok (ent # files)"
    obtain r w1 where r: "processEntry env dir ent w = (r, w1)" by (cases "processEntry env dir ent w")
    from ok 3(1) r have a1: "accounted env w w1" by simp
    show "accounted env w (snd (processEntries env dir (ent # files) w))"
    proof (cases r)
      case Rejected
      with r a1 show ?thesis by simp
    next
      case Resolved
      with 3(2) [OF r [symmetric]] ok
      have "accounted env w1 (snd (processEntries env dir files w1))" by simp
      with a1 r Resolved show ?thesis by (auto intro: accounted_trans)
    qed
  qed
next
  case (4 env dir name files w)
  then show ?case by simp
next
  case (5 env dir name w)
  show ?case by (simp add: dirent_name_def processFile_accounted)
qed


lemma accounted_from:
  assumes "accounted env w1 w2" and "calls w1 = calls w" and "stats w1 = stats w"
  shows "accounted env w w2"
  using accounted_trans [OF accounted_same [OF assms(2) assms(3)] assms(1)] .

lemma accounted_emit:
  assumes "accounted env w w'"
  shows "accounted env w (emit e w')"
  by (rule accounted_trans [OF assms]) (simp add: accounted_same emit_simps)

lemma deleteAndCompress_accounted:
  assumes "list_all tree_names_ok tree"
  shows "accounted env w (snd (deleteAndCompress env dir tree w))"
proof (cases "rm_fails env dir")
  case True
  then show ?thesis by (simp add: deleteAndCompress_def accounted_same emit_simps)
next
  case False
  note rm = this
  show ?thesis
  proof (cases "exec_fails env ''npm install --omit=dev''")
    case True
    with rm show ?thesis by (simp add: deleteAndCompress_def Let_def accounted_same emit_simps)
  next
    case False
    let ?w2 = "emit LogInstalled
        ((emit (LogDeletedFolder dir) (w\<lparr>disk := rm_recursive dir (disk w)\<rparr>))
           \<lparr>disk := exec_effect env
              (disk (emit (LogDeletedFolder dir) (w\<lparr>disk := rm_recursive dir (disk w)\<rparr>)))\<rparr>)"
    obtain r w3 where r: "processDirectory env dir tree ?w2 = (r, w3)"
      by (cases "processDirectory env dir tree ?w2")
    have "accounted env ?w2 (snd (processDirectory env dir tree ?w2))"
      using walk_accounted(1) [of tree env ?w2 dir] assms by simp
    with r have "accounted env ?w2 w3" by simp
    then have a: "accounted env w w3"
      by (rule accounted_from) (simp_all add: emit_simps)
    from rm False r have "snd (deleteAndCompress env dir tree w)
        = (case r of Rejected \<Rightarrow> emit ErrCaught w3 | Resolved \<Rightarrow> w3)"
      by (cases r) (simp_all add: deleteAndCompress_def Let_def)
    with a show ?thesis by (cases r) (simp_all add: accounted_emit)
  qed
qed

lemma deleteAndCompress_resolves: "fst (deleteAndCompress env dir tree w) = Resolved"
  by (simp add: deleteAndCompress_def Let_def split: prod.splits settled.splits)

lemma main_accounted:
  assumes "list_all tree_names_ok tree"
  shows "accounted env (world_of d) (main env tree d)"
proof -
  let ?r = "deleteAndCompress env ''node_modules'' tree (world_of d)"
  have "main env tree d = emit (LogSummary (stats (snd ?r))) (snd ?r)"
    using deleteAndCompress_resolves [of env "''node_modules''" tree "world_of d"]
    by (cases ?r) (simp add: main_def world_of_def)
  with deleteAndCompress_accounted [OF assms, of env "world_of d" "''node_modules''"]
  show ?thesis by (simp add: accounted_emit)
qed

lemma processFile_frame:
  assumes "CHR ''/'' \<notin> set name" and "name \<noteq> []"
  shows "classify name \<noteq> Delete \<Longrightarrow>
           spaceFreed (stats (snd (processFile env name (path_join dir name) w)))
             = spaceFreed (stats w)"
    and "classify name \<noteq> CompressJS \<Longrightarrow> classify name \<noteq> CompressJSON \<Longrightarrow>
           spaceSaved (stats (snd (processFile env name (path_join dir name) w)))
             = spaceSaved (stats w)"
  by (cases "classify name";
      simp add: processFile_by_classify [OF assms] Let_def deleteFile_effect js_effect
        json_effect catch_compress_effect emit_simps enter_simps)+

text \<open>
  Claim C7. At the end of a run over a tree of proper entry names, each of
  \<open>deletedFiles\<close>, \<open>jsFilesCompressed\<close> and \<open>jsonFilesCompressed\<close> is at most the number
  of visited files of its own decision, so their sum is at most the number of visited
  files; \<open>spaceFreed\<close> is at most the sum of the sizes of the visited files classified
  \<open>Delete\<close>, and \<open>spaceSaved\<close> is 0 when no visited file is classified \<open>CompressJS\<close> or
  \<open>CompressJSON\<close>. For every single visit, a file not classified \<open>Delete\<close> leaves
  \<open>spaceFreed\<close> alone and a file classified neither \<open>CompressJS\<close> nor \<open>CompressJSON\<close>
  leaves \<open>spaceSaved\<close> alone.
\<close>

theorem run_statistics_bounded:
  assumes "list_all tree_names_ok tree"
  shows "(let w = main env tree d; st = stats w; cs = calls w
          in deletedFiles st + jsFilesCompressed st + jsonFilesCompressed st \<le> files_visited cs
           \<and> deletedFiles st \<le> visited_of Delete cs
           \<and> jsFilesCompressed st \<le> visited_of CompressJS cs
           \<and> jsonFilesCompressed st \<le> visited_of CompressJSON cs
           \<and> spaceFreed st \<le> delete_sizes env cs
           \<and> (visited_of CompressJS cs + visited_of CompressJSON cs = 0 \<longrightarrow> spaceSaved st = 0))
       \<and> (\<forall>name dir w. dirent_name name \<longrightarrow>
            (classify name \<noteq> Delete \<longrightarrow>
               spaceFreed (stats (snd (processFile env name (path_join dir name) w)))
                 = spaceFreed (stats w))
          \<and> (classify name \<noteq> CompressJS \<and> classify name \<noteq> CompressJSON \<longrightarrow>
               spaceSaved (stats (snd (processFile env name (path_join dir name) w)))
                 = spaceSaved (stats w)))"
proof -
  let ?w = "main env tree d"
  from main_accounted [OF assms, of env d] obtain cs where
    c: "calls ?w = calls (world_of d) @ cs"
    and b: "deletedFiles (stats ?w) \<le> deletedFiles (stats (world_of d)) + visited_of Delete cs"
      "jsFilesCompressed (stats ?w)
         \<le> jsFilesCompressed (stats (world_of d)) + visited_of CompressJS cs"
      "jsonFilesCompressed (stats ?w)
         \<le> jsonFilesCompressed (stats (world_of d)) + visited_of CompressJSON cs"
      "spaceFreed (stats ?w) \<le> spaceFreed (stats (world_of d)) + delete_sizes env cs"
      "visited_of CompressJS cs + visited_of CompressJSON cs = 0
         \<longrightarrow> spaceSaved (stats ?w) = spaceSaved (stats (world_of d))"
    by (rule accountedE)
  from c have cs: "calls ?w = cs" by (simp add: world_of_def)
  have z: "stats (world_of d) = initial_stats" by (simp add: world_of_def)
  from b have b': "deletedFiles (stats ?w) \<le> visited_of Delete cs"
    "jsFilesCompressed (stats ?w) \<le> visited_of CompressJS cs"
    "jsonFilesCompressed (stats ?w) \<le> visited_of CompressJSON cs"
    "spaceFreed (stats ?w) \<le> delete_sizes env cs"
    "visited_of CompressJS cs + visited_of CompressJSON cs = 0 \<longrightarrow> spaceSaved (stats ?w) = 0"
    by (simp_all add: z initial_stats_def)
  have total: "deletedFiles (stats ?w) + jsFilesCompressed (stats ?w)
      + jsonFilesCompressed (stats ?w) \<le> files_visited cs"
    using b'(1,2,3) files_visited_split [of cs] by linarith
  have run: "(let w = main env tree d; st = stats w; cs = calls w
          in deletedFiles st + jsFilesCompressed st + jsonFilesCompressed st \<le> files_visited cs
           \<and> deletedFiles st \<le> visited_of Delete cs
           \<and> jsFilesCompressed st \<le> visited_of CompressJS cs
           \<and> jsonFilesCompressed st \<le> visited_of CompressJSON cs
           \<and> spaceFreed st \<le> delete_sizes env cs
           \<and> (visited_of CompressJS cs + visited_of CompressJSON cs = 0 \<longrightarrow> spaceSaved st = 0))"
    unfolding Let_def cs using total b' by (intro conjI)
  have visit: "\<forall>name dir w. dirent_name name \<longrightarrow>
            (classify name \<noteq> Delete \<longrightarrow>
               spaceFreed (stats (snd (processFile env name (path_join dir name) w)))
                 = spaceFreed (stats w))
          \<and> (classify name \<noteq> CompressJS \<and> classify name \<noteq> CompressJSON \<longrightarrow>
               spaceSaved (stats (snd (processFile env name (path_join dir name) w)))
                 = spaceSaved (stats w))"
    by (simp add: dirent_name_def processFile_frame)
  from run visit show ?thesis by (rule conjI)
qed

theorem run_statistics_bounded_witness:
  "list_all tree_names_ok tree_example
   \<and> stats (main env_ok tree_example Map.empty) =
       \<lparr>jsFilesCompressed = 1, jsonFilesCompressed = 1, deletedFiles = 1, spaceSaved = 28,
        spaceFreed = 2048\<rparr>
   \<and> files_visited (calls (main env_ok tree_example Map.empty)) = 3
   \<and> delete_sizes env_ok (calls (main env_ok tree_example Map.empty)) = 2048
   \<and> spaceFreed (stats (main env_ok tree_example Map.empty))
       \<le> delete_sizes env_ok (calls (main env_ok tree_example Map.empty))
   \<and> list_all tree_names_ok tree_skipped
   \<and> visited_of CompressJS (calls (main env_ok tree_skipped Map.empty))
       + visited_of CompressJSON (calls (main env_ok tree_skipped Map.empty)) = 0
   \<and> spaceSaved (stats (main env_ok tree_skipped Map.empty)) = 0"
proof -
  have h1: "list_all tree_names_ok tree_example"
    by (simp add: tree_example_def dirent_name_def)
  have h2: "list_all tree_names_ok tree_skipped"
    by (simp add: tree_skipped_def dirent_name_def)
  have e1: "stats (main env_ok tree_example Map.empty) =
       \<lparr>jsFilesCompressed = 1, jsonFilesCompressed = 1, deletedFiles = 1, spaceSaved = 28,
        spaceFreed = 2048\<rparr>"
    by code_simp
  have e2: "files_visited (calls (main env_ok tree_example Map.empty)) = 3"
    by code_simp
  have e3: "delete_sizes env_ok (calls (main env_ok tree_example Map.empty)) = 2048"
    by code_simp
  have e4: "visited_of CompressJS (calls (main env_ok tree_skipped Map.empty))
       + visited_of CompressJSON (calls (main env_ok tree_skipped Map.empty)) = 0"
    by code_simp
  from run_statistics_bounded [OF h1, of env_ok Map.empty]
  have t1: "spaceFreed (stats (main env_ok tree_example Map.empty))
       \<le> delete_sizes env_ok (calls (main env_ok tree_example Map.empty))"
    unfolding Let_def by blast
  from run_statistics_bounded [OF h2, of env_ok Map.empty] e4
  have t2: "spaceSaved (stats (main env_ok tree_skipped Map.empty)) = 0"
    unfolding Let_def by blast
  from h1 h2 e1 e2 e3 e4 t1 t2 show ?thesis by (intro conjI)
qed

section \<open>Fatal failures\<close>

lemma fatal_rm:
  assumes "rm_fails env ''node_modules''"
  shows "main env tree d =
     (world_of d)\<lparr>console := [ErrCaught, LogSummary initial_stats]\<rparr>"
  using assms by (simp add: main_def deleteAndCompress_def emit_def world_of_def)

lemma fatal_exec:
  assumes "\<not> rm_fails env ''node_modules''" and "exec_fails env ''npm install --omit=dev''"
  shows "main env tree d =
     (world_of (rm_recursive ''node_modules'' d))
       \<lparr>console := [LogDeletedFolder ''node_modules'', ErrCommand, ErrCaught,
                    LogSummary initial_stats]\<rparr>"
  using assms by (simp add: main_def deleteAndCompress_def emit_def world_of_def Let_def)

text \<open>
  Claim C2 says that a failed removal or reinstall leaves the walker uncalled and prints
  no summary. The summary is printed all the same: \<^verbatim>\<open>deleteAndCompress\<close> catches the
  error and resolves, so the \<^verbatim>\<open>then\<close> of the last statement runs.
\<close>

theorem fatal_failure_summary_counterexample:
  "rm_fails env_rm_fails ''node_modules''
   \<and> LogSummary initial_stats \<in> set (console (main env_rm_fails tree_example disk_example))"
  by (simp add: fatal_rm env_rm_fails_def env_ok_def)

text \<open>
  Claim C2, amended. When the removal of the target directory or the reinstall command
  fails, the error is printed, the tree walker is never called and every counter stays
  0; the summary is still printed, with the five counters at 0.
\<close>

theorem fatal_failure_skips_walk:
  assumes "rm_fails env ''node_modules'' \<or> exec_fails env ''npm install --omit=dev''"
  shows "calls (main env tree d) = []
       \<and> stats (main env tree d) = initial_stats
       \<and> console (main env tree d) =
           (if rm_fails env ''node_modules'' then [ErrCaught, LogSummary initial_stats]
            else [LogDeletedFolder ''node_modules'', ErrCommand, ErrCaught,
                  LogSummary initial_stats])"
proof (cases "rm_fails env ''node_modules''")
  case True
  then show ?thesis by (simp add: fatal_rm world_of_def)
next
  case False
  with assms have "exec_fails env ''npm install --omit=dev''" by simp
  with False show ?thesis by (simp add: fatal_exec world_of_def)
qed

theorem fatal_failure_skips_walk_witness:
  "(rm_fails env_exec_fails ''node_modules''
      \<or> exec_fails env_exec_fails ''npm install --omit=dev'')
   \<and> calls (main env_exec_fails tree_example disk_example) = []
   \<and> stats (main env_exec_fails tree_example disk_example) = initial_stats
   \<and> console (main env_exec_fails tree_example disk_example) =
       [LogDeletedFolder ''node_modules'', ErrCommand, ErrCaught, LogSummary initial_stats]"
proof -
  have h: "rm_fails env_exec_fails ''node_modules''
      \<or> exec_fails env_exec_fails ''npm install --omit=dev''"
    by (simp add: env_exec_fails_def)
  have n: "\<not> rm_fails env_exec_fails ''node_modules''"
    by (simp add: env_exec_fails_def env_ok_def)
  from h n fatal_failure_skips_walk [OF h, of tree_example disk_example]
  show ?thesis by simp
qed

section \<open>Failures on single files\<close>

text \<open>
  A walk rejects only when \<^verbatim>\<open>stat\<close> or \<^verbatim>\<open>readdir\<close> fails: where they succeed it
  resolves and visits every entry of the tree, whatever the removals, reads, writes,
  the parser and the minifier do.
\<close>

lemma compressFile_resolves:
  "fst (compressFile env p w) = Resolved" "calls (snd (compressFile env p w)) = calls w"
  by (simp_all add: compressFile_by_ext catch_compress_effect js_effect json_effect emit_simps)

lemma deleteFile_resolves:
  "stat_size env p \<noteq> None \<Longrightarrow> fst (deleteFile env p w) = Resolved"
  by (auto simp: deleteFile_def Let_def)

lemma processFile_resolves:
  "stat_size env p \<noteq> None \<Longrightarrow> fst (processFile env name p w) = Resolved"
  "calls (snd (processFile env name p w)) = calls w @ [ProcessFile name p]"
  by (simp_all add: processFile_def Let_def deleteFile_resolves compressFile_resolves
      deleteFile_effect enter_simps)

lemma walk_completes:
  assumes "\<forall>p. stat_size env p \<noteq> None" and "\<forall>p. \<not> readdir_fails env p"
  shows "fst (processDirectory env dir files w) = Resolved
         \<and> calls (snd (processDirectory env dir files w)) = calls w @ dir_calls dir files"
    and "fst (processEntries env dir files w) = Resolved
         \<and> calls (snd (processEntries env dir files w)) = calls w @ entries_calls dir files"
    and "fst (processEntry env dir ent w) = Resolved
         \<and> calls (snd (processEntry env dir ent w)) = calls w @ entry_calls dir ent"
  using assms
proof (induction env dir files w and env dir files w and env dir ent w
    rule: processDirectory_processEntries_processEntry.induct)
  case (1 env dir files w0)
  then show ?case by (simp add: enter_simps)
next
  case (2 env dir w)
  show ?case by simp
next
  case (3 env dir ent files w)
  obtain r w1 where r: "processEntry env dir ent w = (r, w1)"
    by (cases "processEntry env dir ent w")
  with 3(1) [OF 3(3) 3(4)] have r1: "r = Resolved" "calls w1 = calls w @ entry_calls dir ent"
    by simp_all
  from 3(2) [OF r [symmetric] r1(1) 3(3) 3(4)] r r1 show ?case by simp
next
  case (4 env dir name files w)
  then show ?case by simp
next
  case (5 env dir name w)
  then show ?case by (simp add: processFile_resolves)
qed

text \<open>
  Claim C1 says that a file whose removal fails is not counted. Here the removal of
  \<^verbatim>\<open>node_modules/README.md\<close> fails and the file stays; the error is printed, and then
  the file is reported as deleted, \<open>deletedFiles\<close> becomes 1 and \<open>spaceFreed\<close> 2048.
\<close>

theorem failed_removal_is_counted:
  "unlink env_unlink_fails ''node_modules/README.md'' (world_of disk_example) = None
   \<and> disk (snd (processFile env_unlink_fails ''README.md'' ''node_modules/README.md''
        (world_of disk_example))) ''node_modules/README.md'' = Some ''# readme''
   \<and> console (snd (processFile env_unlink_fails ''README.md'' ''node_modules/README.md''
        (world_of disk_example)))
      = [ErrDeleting ''node_modules/README.md'', LogDeleted ''node_modules/README.md'' 2048]
   \<and> deletedFiles (stats (snd (processFile env_unlink_fails ''README.md''
        ''node_modules/README.md'' (world_of disk_example)))) = 1
   \<and> spaceFreed (stats (snd (processFile env_unlink_fails ''README.md''
        ''node_modules/README.md'' (world_of disk_example)))) = 2048"
  by code_simp

text \<open>
  Claim C3 says that an error on one file never stops the walk and leaves no statistics
  for that file. Here the removal of the first file fails: the walk goes on to its
  sibling and resolves, but the counters hold one deleted file of 2048 bytes although
  the file is still there.
\<close>

theorem failed_removal_in_walk_is_counted:
  "fst (processDirectory env_unlink_fails ''node_modules''
         [FileEnt ''README.md'', FileEnt ''data.json''] (world_of disk_example)) = Resolved
   \<and> calls (snd (processDirectory env_unlink_fails ''node_modules''
         [FileEnt ''README.md'', FileEnt ''data.json''] (world_of disk_example)))
      = [ProcessDirectory ''node_modules'',
         ProcessFile ''README.md'' ''node_modules/README.md'',
         ProcessFile ''data.json'' ''node_modules/data.json'']
   \<and> disk (snd (processDirectory env_unlink_fails ''node_modules''
         [FileEnt ''README.md'', FileEnt ''data.json''] (world_of disk_example)))
        ''node_modules/README.md'' = Some ''# readme''
   \<and> stats (snd (processDirectory env_unlink_fails ''node_modules''
         [FileEnt ''README.md'', FileEnt ''data.json''] (world_of disk_example)))
      = \<lparr>jsFilesCompressed = 0, jsonFilesCompressed = 1, deletedFiles = 1, spaceSaved = 3,
         spaceFreed = 2048\<rparr>"
  by code_simp

end
